theory Spec2Isabelle
  imports Main "HOL-Library.Word"
begin

unbundle bit_operations_syntax

section \<open>Python values\<close>

text \<open>
  A Python \<^verbatim>\<open>str\<close> is a sequence of Unicode code points. The strings of this program
  are text decoded from the SQLite store or from the editor buffer, so a character is a
  Unicode scalar value: a code point below \<^verbatim>\<open>0x110000\<close> outside the surrogate range
  \<^verbatim>\<open>0xD800..0xDFFF\<close>. Indexing, slicing and \<^verbatim>\<open>len\<close> count such characters.
\<close>

typedef uchar = "{n::nat. n < 55296 \<or> (57343 < n \<and> n < 1114112)}"
  by (rule exI [of _ 0]) simp

type_synonym str = "uchar list"

text \<open>Python's \<^verbatim>\<open>ord\<close> and \<^verbatim>\<open>chr\<close>, and the embedding of an 8-bit character literal.\<close>

definition ord :: "uchar \<Rightarrow> nat" where
  "ord c = Rep_uchar c"

definition chr :: "nat \<Rightarrow> uchar" where
  "chr n = Abs_uchar n"

definition uchr :: "char \<Rightarrow> uchar" where
  "uchr c = chr (of_char c)"

definition ustr :: "string \<Rightarrow> str" where
  "ustr s = map uchr s"

text \<open>
  The exceptions the program can raise: \<^verbatim>\<open>ValueError\<close> from unpacking the result of
  \<^verbatim>\<open>split\<close> into two names, \<^verbatim>\<open>TypeError\<close> from subscripting \<^verbatim>\<open>None\<close>,
  \<^verbatim>\<open>ZeroDivisionError\<close> from \<^verbatim>\<open>%\<close>, and the \<^verbatim>\<open>Exception\<close> that \<^verbatim>\<open>find_pdf\<close>
  raises with its message.
\<close>

datatype error = ValueError | TypeError | ZeroDivisionError | Exception str

text \<open>\<^verbatim>\<open>"%s" % x\<close> for a value that is a string or \<^verbatim>\<open>None\<close>.\<close>

fun format_s :: "str option \<Rightarrow> str" where
  "format_s None = ustr ''None''"
| "format_s (Some s) = s"

text \<open>Truthiness of a value that is a string or \<^verbatim>\<open>None\<close>: both \<^verbatim>\<open>None\<close> and \<^verbatim>\<open>""\<close> are false.\<close>

fun truthy :: "str option \<Rightarrow> bool" where
  "truthy None = False"
| "truthy (Some s) = (s \<noteq> [])"

section \<open>UTF-8 and CRC-32\<close>

text \<open>\<^verbatim>\<open>bytes(s, "UTF-8")\<close>: one to four bytes for each character.\<close>

definition utf8_char :: "uchar \<Rightarrow> 8 word list" where
  "utf8_char c =
     (let n = ord c in
      if n < 128 then [of_nat n]
      else if n < 2048 then [of_nat (192 + n div 64), of_nat (128 + n mod 64)]
      else if n < 65536 then
        [of_nat (224 + n div 4096), of_nat (128 + n div 64 mod 64), of_nat (128 + n mod 64)]
      else
        [of_nat (240 + n div 262144), of_nat (128 + n div 4096 mod 64),
         of_nat (128 + n div 64 mod 64), of_nat (128 + n mod 64)])"

definition bytes_utf8 :: "str \<Rightarrow> 8 word list" where
  "bytes_utf8 s = concat (map utf8_char s)"

text \<open>
  \<^verbatim>\<open>zlib.crc32\<close>: the CRC-32 of ISO-HDLC, bit by bit: reflected polynomial
  \<^verbatim>\<open>0xEDB88320\<close>, initial value and final exclusive-or \<^verbatim>\<open>0xFFFFFFFF\<close>.
\<close>

definition crc32_bit :: "32 word \<Rightarrow> 32 word" where
  "crc32_bit c = (if bit c 0 then drop_bit 1 c XOR 0xEDB88320 else drop_bit 1 c)"

definition crc32_byte :: "32 word \<Rightarrow> 8 word \<Rightarrow> 32 word" where
  "crc32_byte c b = (crc32_bit ^^ 8) (c XOR ucast b)"

definition zlib_crc32 :: "8 word list \<Rightarrow> int" where
  "zlib_crc32 bs = uint (foldl crc32_byte 0xFFFFFFFF bs XOR 0xFFFFFFFF)"

section \<open>Universal citekey algorithm\<close>

definition alphabet :: "uchar list" where
  "alphabet = map chr [ord (uchr CHR ''a'') ..< ord (uchr CHR ''z'') + 1]"

definition title_suffix :: "uchar list" where
  "title_suffix = map chr [ord (uchr CHR ''t'') ..< ord (uchr CHR ''w'') + 1]"

definition doi_suffix :: "uchar list" where
  "doi_suffix = map chr [ord (uchr CHR ''b'') ..< ord (uchr CHR ''k'') + 1]"

definition gen_crc :: "str \<Rightarrow> int" where
  "gen_crc s = zlib_crc32 (bytes_utf8 s) AND 0xffffffff"

text \<open>
  \<^verbatim>\<open>%\<close> raises \<^verbatim>\<open>ZeroDivisionError\<close> when \<^verbatim>\<open>suffixes\<close> is empty. Otherwise both
  indices are in range (\<open>gen_hash_Inr\<close> below), so the subscripts never raise.
\<close>

definition gen_hash :: "str \<Rightarrow> uchar list \<Rightarrow> error + str" where
  "gen_hash text suffixes =
     (let n1 = gen_crc text in
      if int (length alphabet) * int (length suffixes) = 0 then Inl ZeroDivisionError
      else
        let n2 = n1 mod (int (length alphabet) * int (length suffixes));
            n3 = n2 div int (length alphabet);
            n4 = n2 mod int (length alphabet)
        in Inr [suffixes ! nat n3, alphabet ! nat n4])"

fun gen_title_hash :: "str option \<Rightarrow> error + str option" where
  "gen_title_hash None = Inr None"
| "gen_title_hash (Some title) = map_sum id Some (gen_hash title title_suffix)"

fun gen_doi_hash :: "str option \<Rightarrow> error + str option" where
  "gen_doi_hash None = Inr None"
| "gen_doi_hash (Some doi) = map_sum id Some (gen_hash doi doi_suffix)"

definition gen_citekey :: "str option \<Rightarrow> str \<Rightarrow> str option \<Rightarrow> str option \<Rightarrow> error + str" where
  "gen_citekey base year doi title =
     (if truthy doi then
        map_sum id (\<lambda>h. format_s base @ ustr '':'' @ year @ format_s h) (gen_doi_hash doi)
      else
        map_sum id (\<lambda>h. format_s base @ ustr '':'' @ year @ format_s h) (gen_title_hash title))"

text \<open>
  \<^verbatim>\<open>s.split(sep)\<close> for a separator of one character, scanning left to right:
  \<open>part\<close> is the part read so far. The result has one part more than \<open>s\<close> has
  separators.
\<close>

fun split_from :: "uchar \<Rightarrow> str \<Rightarrow> str \<Rightarrow> str list" where
  "split_from sep part [] = [part]"
| "split_from sep part (c # cs) =
     (if c = sep then part # split_from sep [] cs else split_from sep (part @ [c]) cs)"

definition str_split :: "str \<Rightarrow> uchar \<Rightarrow> str list" where
  "str_split s sep = split_from sep [] s"

text \<open>The slice \<^verbatim>\<open>s[i:j]\<close> for \<open>0 \<le> i \<le> j\<close>: it never raises, and is shorter when \<open>s\<close> is.\<close>

definition py_slice :: "nat \<Rightarrow> nat \<Rightarrow> 'a list \<Rightarrow> 'a list" where
  "py_slice i j s = take (j - i) (drop i s)"

text \<open>
  \<^verbatim>\<open>base, suffix = citekey.split(":")\<close> raises \<^verbatim>\<open>ValueError\<close> unless the split has
  exactly two parts.
\<close>

definition split_key :: "str \<Rightarrow> error + (str \<times> str \<times> str)" where
  "split_key citekey =
     (case str_split citekey (uchr CHR '':'') of
        [base, suffix] \<Rightarrow> Inr (base, py_slice 0 4 suffix, drop 4 suffix)
      | _ \<Rightarrow> Inl ValueError)"

section \<open>Papers database access\<close>

text \<open>
  The store: the rows of the tables \<^verbatim>\<open>Publication\<close> and \<^verbatim>\<open>PDF\<close> in the order a
  \<^verbatim>\<open>SELECT\<close> iterates them. A text column of a publication holds a string or \<^verbatim>\<open>NULL\<close>
  (Python's \<^verbatim>\<open>None\<close>).
\<close>

record publication =
  ROWID :: int
  author_year_string :: "str option"
  attributed_title :: "str option"
  canonical_title :: "str option"
  doi :: "str option"
  citekey_base :: "str option"
  publication_date :: "str option"

record pdf =
  object_id :: int
  Path :: str

record database =
  Publication :: "publication list"
  PDF :: "pdf list"

definition basepath :: str where
  "basepath = ustr ''/Users/username/Papers2/''"

text \<open>\<^verbatim>\<open>date[2:6]\<close>, where \<^verbatim>\<open>date\<close> may be \<^verbatim>\<open>None\<close>, which is not subscriptable.\<close>

fun subscript_slice :: "str option \<Rightarrow> nat \<Rightarrow> nat \<Rightarrow> error + str" where
  "subscript_slice None i j = Inl TypeError"
| "subscript_slice (Some s) i j = Inr (py_slice i j s)"

text \<open>
  The body of the loop of \<^verbatim>\<open>list_citations\<close> for one row: \<open>None\<close> when the
  \<^verbatim>\<open>try\<close> block raises (the bare \<^verbatim>\<open>except\<close> passes), otherwise the pair it yields.
\<close>

definition list_citations_row :: "publication \<Rightarrow> (str \<times> str) option" where
  "list_citations_row r =
     (case subscript_slice (publication_date r) 2 6 of
        Inl e \<Rightarrow> None
      | Inr year \<Rightarrow>
          (case gen_citekey (citekey_base r) year (doi r) (canonical_title r) of
             Inl e \<Rightarrow> None
           | Inr citekey \<Rightarrow>
               Some (format_s (author_year_string r) @ ustr '' '' @ format_s (attributed_title r),
                     citekey)))"

fun list_citations_rows :: "publication list \<Rightarrow> (str \<times> str) list" where
  "list_citations_rows [] = []"
| "list_citations_rows (r # rs) =
     (case list_citations_row r of
        None \<Rightarrow> list_citations_rows rs
      | Some y \<Rightarrow> y # list_citations_rows rs)"

definition list_citations :: "database \<Rightarrow> (str \<times> str) list" where
  "list_citations db = list_citations_rows (Publication db)"

text \<open>\<^verbatim>\<open>get_citations\<close> reads the database at \<^verbatim>\<open>dbpath\<close>; here its contents are \<open>db\<close>.\<close>

definition get_citations :: "database \<Rightarrow> (str \<times> str) list" where
  "get_citations db = rev (list_citations db)"

text \<open>SQLite's \<^verbatim>\<open>substr(x, y, z)\<close> for \<open>y \<ge> 1\<close>: \<open>z\<close> characters from the \<open>y\<close>-th.\<close>

definition substr :: "str \<Rightarrow> nat \<Rightarrow> nat \<Rightarrow> str" where
  "substr x y z = take z (drop (y - 1) x)"

text \<open>
  The two queries of \<^verbatim>\<open>find_pdf\<close>: the \<^verbatim>\<open>WHERE\<close> clause on base and year, the
  candidates it selects, and the paths of the PDFs of a publication. A comparison with
  \<^verbatim>\<open>NULL\<close> selects no row.
\<close>

definition where_base_year :: "str \<Rightarrow> str \<Rightarrow> publication \<Rightarrow> bool" where
  "where_base_year base year r =
     (citekey_base r = Some base \<and>
      (case publication_date r of
         None \<Rightarrow> False
       | Some date \<Rightarrow> substr date 3 4 = year))"

definition select_candidates ::
  "database \<Rightarrow> str \<Rightarrow> str \<Rightarrow> (int \<times> str option \<times> str option) list" where
  "select_candidates db base year =
     map (\<lambda>r. (ROWID r, canonical_title r, doi r))
       (filter (where_base_year base year) (Publication db))"

definition select_pdf_paths :: "database \<Rightarrow> int \<Rightarrow> str list" where
  "select_pdf_paths db rowid = map Path (filter (\<lambda>p. object_id p = rowid) (PDF db))"

text \<open>\<^verbatim>\<open>os.path.join(a, b)\<close> of \<^verbatim>\<open>posixpath\<close>.\<close>

definition os_path_join :: "str \<Rightarrow> str \<Rightarrow> str" where
  "os_path_join a b =
     (if take 1 b = ustr ''/'' then b
      else if a = [] \<or> last a = uchr CHR ''/'' then a @ b
      else a @ ustr ''/'' @ b)"

text \<open>
  The condition \<^verbatim>\<open>citehash == gen_title_hash(title) or citehash == gen_doi_hash(doi)\<close>;
  \<^verbatim>\<open>or\<close> does not evaluate its second operand when the first is true.
\<close>

definition hash_matches :: "str \<Rightarrow> str option \<Rightarrow> str option \<Rightarrow> error + bool" where
  "hash_matches citehash title d =
     (case gen_title_hash title of
        Inl e \<Rightarrow> Inl e
      | Inr th \<Rightarrow>
          if Some citehash = th then Inr True
          else (case gen_doi_hash d of
                  Inl e \<Rightarrow> Inl e
                | Inr dh \<Rightarrow> Inr (Some citehash = dh)))"

fun find_pdf_loop ::
  "database \<Rightarrow> str \<Rightarrow> str \<Rightarrow> (int \<times> str option \<times> str option) list \<Rightarrow> error + str" where
  "find_pdf_loop db citekey citehash [] =
     Inl (Exception (ustr ''No matching PDF found for '' @ citekey))"
| "find_pdf_loop db citekey citehash ((rowid, title, d) # candidates) =
     (case hash_matches citehash title d of
        Inl e \<Rightarrow> Inl e
      | Inr True \<Rightarrow>
          (case select_pdf_paths db rowid of
             pdf_path # _ \<Rightarrow> Inr (os_path_join basepath pdf_path)
           | [] \<Rightarrow> find_pdf_loop db citekey citehash candidates)
      | Inr False \<Rightarrow> find_pdf_loop db citekey citehash candidates)"

definition find_pdf :: "database \<Rightarrow> str \<Rightarrow> error + str" where
  "find_pdf db citekey =
     (case split_key citekey of
        Inl e \<Rightarrow> Inl e
      | Inr (base, year, citehash) \<Rightarrow>
          find_pdf_loop db citekey citehash (select_candidates db base year))"

section \<open>The grammar of citation groups\<close>

text \<open>
  The parser elements that \<^verbatim>\<open>citekey_expr\<close> and \<^verbatim>\<open>citations_expr\<close> are built
  from, as functions from the input string and a location to the location after the
  match (and the tokens), or \<open>None\<close> for a \<^verbatim>\<open>ParseException\<close>. A location is an
  index into the string.
\<close>

definition alphas :: str where
  "alphas = ustr ''ABCDEFGHIJKLMNOPQRSTUVWXYZabcdefghijklmnopqrstuvwxyz''"

definition nums :: str where
  "nums = ustr ''0123456789''"

definition DEFAULT_WHITE_CHARS :: str where
  "DEFAULT_WHITE_CHARS = [uchr CHR '' '', uchr CHR 0x0A, uchr CHR 0x09, uchr CHR 0x0D]"

text \<open>
  \<^verbatim>\<open>str.expandtabs()\<close>, which \<^verbatim>\<open>scanString\<close> applies to its input first: a tab
  becomes the spaces up to the next multiple of 8 columns; a line break resets the column.
\<close>

fun expandtabs_from :: "nat \<Rightarrow> str \<Rightarrow> str" where
  "expandtabs_from col [] = []"
| "expandtabs_from col (c # cs) =
     (if c = uchr CHR 0x09 then
        replicate (8 - col mod 8) (uchr CHR '' '') @ expandtabs_from (col + (8 - col mod 8)) cs
      else if c = uchr CHR 0x0A \<or> c = uchr CHR 0x0D then c # expandtabs_from 0 cs
      else c # expandtabs_from (col + 1) cs)"

definition expandtabs :: "str \<Rightarrow> str" where
  "expandtabs s = expandtabs_from 0 s"

text \<open>\<^verbatim>\<open>preParse\<close> skips the white space before an element.\<close>

definition preParse :: "str \<Rightarrow> nat \<Rightarrow> nat" where
  "preParse instring loc =
     loc + length (takeWhile (\<lambda>c. c \<in> set DEFAULT_WHITE_CHARS) (drop loc instring))"

text \<open>\<^verbatim>\<open>Literal(ch).parseImpl\<close> for a literal of one character.\<close>

definition parse_Literal :: "uchar \<Rightarrow> str \<Rightarrow> nat \<Rightarrow> nat option" where
  "parse_Literal ch instring loc =
     (if loc < length instring \<and> instring ! loc = ch then Some (loc + 1) else None)"

text \<open>
  \<^verbatim>\<open>Word(chars, min=minLen, max=maxLen).parseImpl\<close>: the longest run of characters of
  \<open>chars\<close>, of at most \<open>maxLen\<close> characters; it fails when the run is empty or shorter
  than \<open>minLen\<close>. \<^verbatim>\<open>exact=n\<close> sets both bounds to \<open>n\<close>, and does not look at the
  character after the run.
\<close>

definition parse_Word :: "str \<Rightarrow> nat \<Rightarrow> nat option \<Rightarrow> str \<Rightarrow> nat \<Rightarrow> nat option" where
  "parse_Word chars minLen maxLen instring loc =
     (let rest = (case maxLen of None \<Rightarrow> drop loc instring | Some m \<Rightarrow> take m (drop loc instring));
          n = length (takeWhile (\<lambda>c. c \<in> set chars) rest)
      in if 1 \<le> n \<and> minLen \<le> n then Some (loc + n) else None)"

text \<open>
  \<^verbatim>\<open>Combine(Word(alphas) + ":" + Word(nums, exact=4) + Word(alphas, exact=2))\<close> with
  the parse action \<^verbatim>\<open>add_loc\<close>: white space is skipped before the key, not inside it;
  the token is the pair of the location where the key starts and the key.
\<close>

definition citekey_expr :: "str \<Rightarrow> nat \<Rightarrow> (nat \<times> nat \<times> str) option" where
  "citekey_expr instring loc =
     (let locn = preParse instring loc in
      case parse_Word alphas 1 None instring locn of
        None \<Rightarrow> None
      | Some l1 \<Rightarrow>
      (case parse_Literal (uchr CHR '':'') instring l1 of
        None \<Rightarrow> None
      | Some l2 \<Rightarrow>
      (case parse_Word nums 4 (Some 4) instring l2 of
        None \<Rightarrow> None
      | Some l3 \<Rightarrow>
      (case parse_Word alphas 2 (Some 2) instring l3 of
        None \<Rightarrow> None
      | Some l4 \<Rightarrow> Some (l4, locn, py_slice locn l4 instring)))))"

text \<open>\<^verbatim>\<open>Optional(",").suppress()\<close>: the location is unchanged when no comma follows.\<close>

definition optional_comma :: "str \<Rightarrow> nat \<Rightarrow> nat" where
  "optional_comma instring loc =
     (case parse_Literal (uchr CHR '','') instring (preParse instring loc) of
        None \<Rightarrow> loc
      | Some l \<Rightarrow> l)"

text \<open>
  \<^verbatim>\<open>OneOrMore(citekey_expr + Optional(",").suppress())\<close>: one key, then keys until
  one fails to parse.
\<close>

function one_or_more_citekeys :: "str \<Rightarrow> nat \<Rightarrow> (nat \<times> (nat \<times> str) list) option" where
  "one_or_more_citekeys instring loc =
     (case citekey_expr instring loc of
        None \<Rightarrow> None
      | Some (l1, tok) \<Rightarrow>
          (case one_or_more_citekeys instring (optional_comma instring l1) of
             None \<Rightarrow> Some (optional_comma instring l1, [tok])
           | Some (l2, toks) \<Rightarrow> Some (l2, tok # toks)))"
  by pat_completeness auto
termination
proof (relation "measure (\<lambda>(instring, loc). length instring - loc)")
  show "wf (measure (\<lambda>(instring, loc). length instring - loc))"
    by simp
next
  fix instring :: str and loc x2 l1 tok
  assume a: "citekey_expr instring loc = Some x2" "(l1, tok) = x2"
  have w: "parse_Word cs mn mx instring l = Some l' \<Longrightarrow> l < l' \<and> l' \<le> length instring" for cs mn mx l l'
  proof -
    assume p: "parse_Word cs mn mx instring l = Some l'"
    define rest where "rest = (case mx of None \<Rightarrow> drop l instring | Some m \<Rightarrow> take m (drop l instring))"
    have "length (takeWhile (\<lambda>c. c \<in> set cs) rest) \<le> length rest"
      by (rule length_takeWhile_le)
    moreover have "length rest \<le> length instring - l"
      by (simp add: rest_def split: option.splits)
    moreover from p have "l' = l + length (takeWhile (\<lambda>c. c \<in> set cs) rest)"
      and "1 \<le> length (takeWhile (\<lambda>c. c \<in> set cs) rest)"
      by (auto simp: parse_Word_def Let_def rest_def split: if_splits)
    ultimately show ?thesis by linarith
  qed
  have lit: "parse_Literal ch instring l = Some l' \<Longrightarrow> l < l' \<and> l' \<le> length instring" for ch l l'
    by (auto simp: parse_Literal_def split: if_splits)
  have pre: "l \<le> preParse instring l" for l by (simp add: preParse_def)
  have oc: "l \<le> optional_comma instring l" for l
    using pre [of l] lit [of _ "preParse instring l"]
    by (fastforce simp: optional_comma_def split: option.splits)
  from a have "loc < l1 \<and> l1 \<le> length instring"
    using pre [of loc]
    by (fastforce simp: citekey_expr_def Let_def split: option.splits dest: w lit)
  with oc [of l1]
  show "((instring, optional_comma instring l1), instring, loc) \<in> measure (\<lambda>(instring, loc). length instring - loc)"
    by simp arith
qed

text \<open>
  \<^verbatim>\<open>citations_expr\<close>, parsed at a location where white space has been skipped
  already, as \<^verbatim>\<open>scanString\<close> calls it.
\<close>

definition citations_expr :: "str \<Rightarrow> nat \<Rightarrow> (nat \<times> (nat \<times> str) list) option" where
  "citations_expr instring loc =
     (case parse_Literal (uchr CHR ''{'') instring loc of
        None \<Rightarrow> None
      | Some l1 \<Rightarrow>
      (case one_or_more_citekeys instring l1 of
        None \<Rightarrow> None
      | Some (l2, tokens) \<Rightarrow>
      (case parse_Literal (uchr CHR ''}'') instring (preParse instring l2) of
        None \<Rightarrow> None
      | Some l3 \<Rightarrow> Some (l3, tokens))))"

text \<open>
  The loop of \<^verbatim>\<open>scanString\<close>: each match is yielded with its start and end, and the
  scan goes on after it; where the grammar does not match, one character further.
\<close>

function scan_from :: "str \<Rightarrow> nat \<Rightarrow> ((nat \<times> str) list \<times> nat \<times> nat) list" where
  "scan_from instring loc =
     (if loc \<le> length instring then
        (case citations_expr instring (preParse instring loc) of
           None \<Rightarrow> scan_from instring (preParse instring loc + 1)
         | Some (nextLoc, tokens) \<Rightarrow>
             if nextLoc > loc then (tokens, preParse instring loc, nextLoc) # scan_from instring nextLoc
             else scan_from instring (preParse instring loc + 1))
      else [])"
  by pat_completeness auto
termination
  by (relation "measure (\<lambda>(instring, loc). Suc (length instring) - loc)")
     (auto simp: preParse_def)

definition scanString :: "str \<Rightarrow> ((nat \<times> str) list \<times> nat \<times> nat) list" where
  "scanString instring = scan_from (expandtabs instring) 0"

section \<open>Notions of the specification and example stores\<close>


text \<open>
  The shape of a key in free text: one or more letters, a colon, exactly four digits and
  exactly two letters.
\<close>

definition citekey_shape :: "str \<Rightarrow> bool" where
  "citekey_shape key =
     (\<exists>b y h. key = b @ ustr '':'' @ y @ h \<and>
        b \<noteq> [] \<and> set b \<subseteq> set alphas \<and>
        length y = 4 \<and> set y \<subseteq> set nums \<and>
        length h = 2 \<and> set h \<subseteq> set alphas)"



definition short_date_row :: publication where
  "short_date_row =
     \<lparr>ROWID = 1, author_year_string = Some (ustr ''Smith 2020''),
      attributed_title = Some (ustr ''A Title''), canonical_title = Some (ustr ''A title''),
      doi = None, citekey_base = Some (ustr ''smith''), publication_date = Some (ustr ''99'')\<rparr>"



section \<open>Characters, tables and checksums\<close>

lemma ord_uchr [simp]: "ord (uchr c) = of_char c"
proof -
  have "(of_char c :: nat) < 55296"
    using nat_of_char_less_256 [of c] by linarith
  then show ?thesis by (simp add: ord_def uchr_def chr_def Abs_uchar_inverse)
qed

lemma uchr_eq_iff [simp]: "uchr c = uchr d \<longleftrightarrow> c = d"
proof
  assume "uchr c = uchr d"
  then have "ord (uchr c) = ord (uchr d)" by simp
  then show "c = d" by simp
qed simp

lemma ord_chr: "n < 55296 \<or> (57343 < n \<and> n < 1114112) \<Longrightarrow> ord (chr n) = n"
  by (simp add: ord_def chr_def Abs_uchar_inverse)

text \<open>The encoder on characters of two, three and four bytes.\<close>

lemma utf8_char_examples:
  "utf8_char (chr 0xE9) = [0xC3, 0xA9]"
  "utf8_char (chr 0x20AC) = [0xE2, 0x82, 0xAC]"
  "utf8_char (chr 0x1F600) = [0xF0, 0x9F, 0x98, 0x80]"
  by (simp_all add: utf8_char_def ord_chr)

lemma alphabet_eq: "alphabet = ustr ''abcdefghijklmnopqrstuvwxyz''"
  by (simp add: alphabet_def) (simp add: ustr_def uchr_def)

lemma title_suffix_eq: "title_suffix = ustr ''tuvw''"
  by (simp add: title_suffix_def) (simp add: ustr_def uchr_def)

lemma doi_suffix_eq: "doi_suffix = ustr ''bcdefghijk''"
  by (simp add: doi_suffix_def) (simp add: ustr_def uchr_def)

lemma length_alphabet [simp]: "length alphabet = 26"
  by (simp add: alphabet_eq ustr_def)
lemma length_title_suffix [simp]: "length title_suffix = 4"
  by (simp add: title_suffix_eq ustr_def)
lemma length_doi_suffix [simp]: "length doi_suffix = 10"
  by (simp add: doi_suffix_eq ustr_def)

lemma utf8_uchr_ascii: "of_char c < (128::nat) \<Longrightarrow> utf8_char (uchr c) = [of_char c]"
  by (simp add: utf8_char_def of_nat_of_char)

lemma funpow8: "(f ^^ 8) x = f (f (f (f (f (f (f (f x)))))))"
  by (simp add: eval_nat_numeral)

text \<open>The check value of CRC-32: the checksum of the nine digits is \<^verbatim>\<open>0xCBF43926\<close>.\<close>

lemma zlib_crc32_check: "zlib_crc32 (map of_char ''123456789'') = 0xCBF43926"
  by (simp add: zlib_crc32_def crc32_byte_def crc32_bit_def funpow8)

lemma gen_crc_doi: "gen_crc (ustr ''10.1/xyz'') = 3378446517"
  by (simp add: gen_crc_def bytes_utf8_def ustr_def utf8_uchr_ascii zlib_crc32_def crc32_byte_def crc32_bit_def funpow8)

lemma gen_hash_doi_example: "gen_hash (ustr ''10.1/xyz'') doi_suffix = Inr (ustr ''br'')"
  by (simp add: gen_hash_def gen_crc_doi) (simp add: alphabet_eq doi_suffix_eq ustr_def)

lemma gen_doi_hash_example: "gen_doi_hash (Some (ustr ''10.1/xyz'')) = Inr (Some (ustr ''br''))"
  by (simp add: gen_hash_doi_example)

lemma gen_crc_A_title: "gen_crc (ustr ''A title'') = 2510826483"
  by (simp add: gen_crc_def bytes_utf8_def ustr_def utf8_uchr_ascii zlib_crc32_def
      crc32_byte_def crc32_bit_def funpow8)

lemma gen_hash_title_example: "gen_hash (ustr ''A title'') title_suffix = Inr (ustr ''uj'')"
  by (simp add: gen_hash_def gen_crc_A_title) (simp add: alphabet_eq title_suffix_eq ustr_def)

lemma gen_title_hash_example: "gen_title_hash (Some (ustr ''A title'')) = Inr (Some (ustr ''uj''))"
  by (simp add: gen_hash_title_example)

lemma gen_crc_eq: "gen_crc s = zlib_crc32 (bytes_utf8 s)"
proof -
  have m: "(0xffffffff::int) = mask 32" by (simp add: mask_eq_exp_minus_1)
  show ?thesis
    unfolding gen_crc_def zlib_crc32_def m
    by (simp add: take_bit_eq_mask [symmetric] take_bit_int_eq_self_iff uint_lt2p [where 'a=32, simplified])
qed

lemma zlib_crc32_range: "0 \<le> zlib_crc32 bs \<and> zlib_crc32 bs < 2 ^ 32"
  unfolding zlib_crc32_def using uint_lt2p [where 'a=32] by simp

section \<open>The hash engine and the citekey codec\<close>

lemma gen_hash_Inr:
  assumes "suffixes \<noteq> []"
  shows "\<exists>i j. i < length suffixes \<and> j < 26 \<and>
    gen_hash text suffixes = Inr [suffixes ! i, alphabet ! j]"
proof -
  define k where "k = int (length suffixes)"
  define n2 where "n2 = gen_crc text mod (26 * k)"
  have k: "0 < k" using assms by (simp add: k_def)
  have n2: "0 \<le> n2" "n2 < 26 * k" using k by (simp_all add: n2_def)
  have "n2 div 26 < k" using n2 by (simp add: div_less_iff_less_mult mult.commute)
  then have a: "nat (n2 div 26) < length suffixes"
    using n2 by (simp add: k_def nat_less_iff)
  have b: "nat (n2 mod 26) < 26" by simp
  have "gen_hash text suffixes = Inr [suffixes ! nat (n2 div 26), alphabet ! nat (n2 mod 26)]"
    using k by (simp add: gen_hash_def Let_def n2_def k_def)
  with a b show ?thesis by blast
qed

lemma ustr_simps: "ustr [] = []" "ustr (c # cs) = uchr c # ustr cs"
  by (simp_all add: ustr_def)

lemma gen_title_hash_Some:
  "\<exists>a b. a \<in> set title_suffix \<and> b \<in> set alphabet \<and> gen_title_hash (Some t) = Inr (Some [a, b])"
proof -
  have "title_suffix \<noteq> []" by (simp add: title_suffix_eq ustr_simps)
  from gen_hash_Inr [OF this, of t] obtain i j where
    "i < length title_suffix" "j < 26" "gen_hash t title_suffix = Inr [title_suffix ! i, alphabet ! j]"
    by blast
  then show ?thesis by (auto intro!: exI [of _ "title_suffix ! i"] exI [of _ "alphabet ! j"])
qed

lemma gen_doi_hash_Some:
  "\<exists>a b. a \<in> set doi_suffix \<and> b \<in> set alphabet \<and> gen_doi_hash (Some t) = Inr (Some [a, b])"
proof -
  have "doi_suffix \<noteq> []" by (simp add: doi_suffix_eq ustr_simps)
  from gen_hash_Inr [OF this, of t] obtain i j where
    "i < length doi_suffix" "j < 26" "gen_hash t doi_suffix = Inr [doi_suffix ! i, alphabet ! j]"
    by blast
  then show ?thesis by (auto intro!: exI [of _ "doi_suffix ! i"] exI [of _ "alphabet ! j"])
qed

lemma suffixes_disjoint: "a \<in> set doi_suffix \<Longrightarrow> a \<notin> set title_suffix"
  by (auto simp: doi_suffix_eq title_suffix_eq ustr_simps)

lemma colon_notin_tables:
  "uchr CHR '':'' \<notin> set alphabet" "uchr CHR '':'' \<notin> set title_suffix" "uchr CHR '':'' \<notin> set doi_suffix"
  by (simp_all add: alphabet_eq title_suffix_eq doi_suffix_eq ustr_simps)

lemma split_from_no_sep: "sep \<notin> set s \<Longrightarrow> split_from sep part s = [part @ s]"
  by (induction s arbitrary: part) auto

lemma split_from_sep:
  "sep \<notin> set b \<Longrightarrow> split_from sep part (b @ sep # r) = (part @ b) # split_from sep [] r"
  by (induction b arbitrary: part) auto

lemma split_key_one_colon:
  assumes "uchr CHR '':'' \<notin> set base" "uchr CHR '':'' \<notin> set suffix"
  shows "split_key (base @ ustr '':'' @ suffix) = Inr (base, take 4 suffix, drop 4 suffix)"
  using assms by (simp add: split_key_def str_split_def split_from_sep split_from_no_sep py_slice_def ustr_simps)

lemma split_key_no_colon:
  assumes "uchr CHR '':'' \<notin> set citekey"
  shows "split_key citekey = Inl ValueError"
  using assms by (simp add: split_key_def str_split_def split_from_no_sep)

text \<open>
  Claim C7. A citekey with no colon makes \<^verbatim>\<open>split_key\<close> raise: the split has one
  part, and unpacking it into two names is a \<^verbatim>\<open>ValueError\<close> (the error the
  specification calls MalformedCitekey). A citekey with a single colon is split into the
  part before the colon, the first four characters after it (fewer when fewer follow) and
  the characters after those.
\<close>

theorem split_key_colons:
  "(uchr CHR '':'' \<notin> set citekey \<longrightarrow> split_key citekey = Inl ValueError) \<and>
   (uchr CHR '':'' \<notin> set base \<and> uchr CHR '':'' \<notin> set suffix \<longrightarrow>
      split_key (base @ ustr '':'' @ suffix) = Inr (base, take 4 suffix, drop 4 suffix))"
  by (simp add: split_key_one_colon split_key_no_colon)

theorem split_key_colons_witness:
  "split_key (ustr ''bad-key-no-colon'') = Inl ValueError \<and>
   split_key (ustr ''smith:2020ab'') = Inr (ustr ''smith'', ustr ''2020'', ustr ''ab'')"
  using split_key_colons [of "ustr ''bad-key-no-colon''" "ustr ''smith''" "ustr ''2020ab''"]
  by (simp add: ustr_simps)

text \<open>
  Claim C2. For a table \<open>A\<close> of four suffix characters, \<^verbatim>\<open>gen_hash\<close> returns the
  two characters \<open>A[n3]\<close> and \<open>alphabet[n4]\<close>, where \<open>n1\<close> is the CRC-32 of the UTF-8
  bytes of the text as an unsigned 32-bit number, \<open>n2 = n1 mod (26 * 4)\<close>,
  \<open>n3 = n2 div 26\<close> and \<open>n4 = n2 mod 26\<close>; both indices are in range, and \<open>alphabet\<close>
  is the lowercase alphabet. The result is a function of the text and the table alone.
\<close>

theorem gen_hash_four_suffixes:
  assumes "length A = 4"
  shows "let n1 = zlib_crc32 (bytes_utf8 text);
             n2 = n1 mod (26 * 4);
             n3 = n2 div 26;
             n4 = n2 mod 26
         in gen_crc text = n1 \<and> 0 \<le> n1 \<and> n1 < 2 ^ 32 \<and>
            0 \<le> n3 \<and> n3 < 4 \<and> 0 \<le> n4 \<and> n4 < 26 \<and>
            alphabet = ustr ''abcdefghijklmnopqrstuvwxyz'' \<and>
            gen_hash text A = Inr [A ! nat n3, alphabet ! nat n4] \<and>
            length [A ! nat n3, alphabet ! nat n4] = 2"
proof -
  have "zlib_crc32 (bytes_utf8 text) mod 104 div 26 < 4"
    by (simp add: div_less_iff_less_mult)
  then show ?thesis
    using assms zlib_crc32_range [of "bytes_utf8 text"]
    by (simp add: Let_def gen_hash_def gen_crc_eq alphabet_eq [symmetric] pos_imp_zdiv_nonneg_iff)
qed

theorem gen_hash_four_suffixes_witness:
  "length title_suffix = 4 \<and> gen_hash (ustr ''10.1/xyz'') title_suffix = Inr (ustr ''vr'')"
  using gen_hash_four_suffixes [of title_suffix "ustr ''10.1/xyz''"] gen_crc_doi
  by (simp add: Let_def gen_crc_eq) (simp add: title_suffix_eq alphabet_eq ustr_simps)

lemma gen_citekey_doi:
  "d \<noteq> [] \<Longrightarrow> gen_doi_hash (Some d) = Inr (Some h) \<Longrightarrow>
   gen_citekey base year (Some d) title = Inr (format_s base @ ustr '':'' @ year @ h)"
  by (simp add: gen_citekey_def)

lemma gen_citekey_title:
  "dv = None \<or> dv = Some [] \<Longrightarrow> gen_title_hash title = Inr th \<Longrightarrow>
   gen_citekey base year dv title = Inr (format_s base @ ustr '':'' @ year @ format_s th)"
  by (auto simp: gen_citekey_def)

text \<open>
  Claim C6. With a non-empty DOI the citekey is the base, a colon, the year and the
  two-character hash of the DOI, whatever the title is; that hash is never the hash of the
  title, since the two suffix tables share no character. With the DOI absent or empty the
  citekey ends in the hash of the title as \<^verbatim>\<open>%s\<close> formats it.
\<close>

theorem gen_citekey_prefers_doi:
  "(d \<noteq> [] \<longrightarrow>
      (\<exists>h. gen_doi_hash (Some d) = Inr (Some h) \<and> length h = 2 \<and>
           gen_citekey (Some base) year (Some d) title = Inr (base @ ustr '':'' @ year @ h) \<and>
           gen_title_hash title \<noteq> Inr (Some h))) \<and>
   (dv = None \<or> dv = Some [] \<longrightarrow>
      (\<exists>th. gen_title_hash title = Inr th \<and>
            gen_citekey (Some base) year dv title =
              Inr (base @ ustr '':'' @ year @ format_s th)))"
proof (intro conjI impI)
  assume d: "d \<noteq> []"
  obtain a b where ab: "a \<in> set doi_suffix" "gen_doi_hash (Some d) = Inr (Some [a, b])"
    using gen_doi_hash_Some [of d] by blast
  have "gen_title_hash title \<noteq> Inr (Some [a, b])"
  proof (cases title)
    case None
    then show ?thesis by simp
  next
    case (Some t)
    obtain a' b' where t: "a' \<in> set title_suffix" "gen_title_hash (Some t) = Inr (Some [a', b'])"
      using gen_title_hash_Some [of t] by blast
    with ab(1) Some show ?thesis using suffixes_disjoint [of a] by auto
  qed
  with d ab gen_citekey_doi [OF d ab(2), of "Some base" year title]
  show "\<exists>h. gen_doi_hash (Some d) = Inr (Some h) \<and> length h = 2 \<and>
           gen_citekey (Some base) year (Some d) title = Inr (base @ ustr '':'' @ year @ h) \<and>
           gen_title_hash title \<noteq> Inr (Some h)"
    by (intro exI [of _ "[a, b]"]) simp
next
  assume dv: "dv = None \<or> dv = Some []"
  obtain th where th: "gen_title_hash title = Inr th"
    using gen_title_hash_Some by (cases title) auto
  with gen_citekey_title [OF dv th, of "Some base" year]
  show "\<exists>th. gen_title_hash title = Inr th \<and>
            gen_citekey (Some base) year dv title = Inr (base @ ustr '':'' @ year @ format_s th)"
    by auto
qed

theorem gen_citekey_prefers_doi_witness:
  "gen_citekey (Some (ustr ''smith'')) (ustr ''2020'') (Some (ustr ''10.1/xyz'')) (Some (ustr ''A title''))
     = Inr (ustr ''smith:2020br'') \<and>
   gen_citekey (Some (ustr ''smith'')) (ustr ''2020'') (Some []) (Some (ustr ''A title''))
     = Inr (ustr ''smith:2020uj'')"
proof -
  have d: "ustr ''10.1/xyz'' \<noteq> []" by (simp add: ustr_simps)
  note w = gen_citekey_prefers_doi [of "ustr ''10.1/xyz''" "ustr ''smith''" "ustr ''2020''"
      "Some (ustr ''A title'')" "Some []"]
  from w d obtain h where h: "gen_doi_hash (Some (ustr ''10.1/xyz'')) = Inr (Some h)"
    "gen_citekey (Some (ustr ''smith'')) (ustr ''2020'') (Some (ustr ''10.1/xyz''))
       (Some (ustr ''A title'')) = Inr (ustr ''smith'' @ ustr '':'' @ ustr ''2020'' @ h)"
    by blast
  from w obtain th where th: "gen_title_hash (Some (ustr ''A title'')) = Inr th"
    "gen_citekey (Some (ustr ''smith'')) (ustr ''2020'') (Some []) (Some (ustr ''A title''))
       = Inr (ustr ''smith'' @ ustr '':'' @ ustr ''2020'' @ format_s th)"
    by blast
  from h(1) have "h = ustr ''br''" unfolding gen_doi_hash_example by simp
  moreover from th(1) have "th = Some (ustr ''uj'')" unfolding gen_title_hash_example by simp
  ultimately show ?thesis using h(2) th(2) by (simp add: ustr_simps)
qed

text \<open>
  Claim C10. With the DOI absent or empty and the title absent, \<^verbatim>\<open>gen_citekey\<close> does
  not raise: \<^verbatim>\<open>gen_title_hash\<close> returns \<^verbatim>\<open>None\<close>, which \<^verbatim>\<open>%s\<close> formats as the four
  characters \<^verbatim>\<open>None\<close>, so the citekey is the base, a colon, the year and \<^verbatim>\<open>None\<close>.
\<close>

theorem gen_citekey_None_hash:
  "dv = None \<or> dv = Some [] \<Longrightarrow>
   gen_citekey (Some base) year dv None = Inr (base @ ustr '':'' @ year @ ustr ''None'') \<and>
   length (ustr ''None'') = 4"
  by (auto simp: gen_citekey_def ustr_simps)

theorem gen_citekey_None_hash_witness:
  "gen_citekey (Some (ustr ''smith'')) (ustr ''2020'') None None = Inr (ustr ''smith:2020None'') \<and>
   gen_citekey (Some (ustr ''smith'')) (ustr ''2020'') (Some []) None = Inr (ustr ''smith:2020None'')"
  using gen_citekey_None_hash [of None "ustr ''smith''" "ustr ''2020''"]
    gen_citekey_None_hash [of "Some []" "ustr ''smith''" "ustr ''2020''"]
  by (simp add: ustr_simps)

text \<open>
  Claim C3, as stated, fails in two places. With an empty DOI and no title one of the two
  is present, yet the key ends in the text \<^verbatim>\<open>None\<close>, which \<^verbatim>\<open>split_key\<close> returns as
  the hash, while the hash of the absent title is \<^verbatim>\<open>None\<close> itself. And a year of four
  characters may hold a colon: the key then has two colons and \<^verbatim>\<open>split_key\<close> raises.
\<close>

theorem split_gen_citekey_counterexample:
  "gen_citekey (Some (ustr ''smith'')) (ustr ''20:0'') (Some (ustr ''10.1/xyz'')) None
     = Inr (ustr ''smith:20:0br'') \<and>
   split_key (ustr ''smith:20:0br'') = Inl ValueError \<and>
   gen_citekey (Some (ustr ''smith'')) (ustr ''2020'') (Some []) None = Inr (ustr ''smith:2020None'') \<and>
   split_key (ustr ''smith:2020None'') = Inr (ustr ''smith'', ustr ''2020'', ustr ''None'') \<and>
   gen_title_hash None = Inr None"
proof -
  have "ustr ''10.1/xyz'' \<noteq> []" by (simp add: ustr_simps)
  then have "gen_citekey (Some (ustr ''smith'')) (ustr ''20:0'') (Some (ustr ''10.1/xyz'')) None
     = Inr (ustr ''smith'' @ ustr '':'' @ ustr ''20:0'' @ ustr ''br'')"
    by (simp add: gen_citekey_def gen_hash_doi_example)
  then show ?thesis
    by (simp add: gen_citekey_def split_key_def str_split_def py_slice_def ustr_simps)
qed

text \<open>
  Claim C3, amended. For a base without a colon and a year of four characters without a
  colon, \<^verbatim>\<open>split_key\<close> of the generated key returns the base, the year and the hash:
  the hash of the DOI when the DOI is non-empty, and the hash of the title when the DOI is
  absent or empty and the title is present.
\<close>

theorem split_gen_citekey:
  assumes "uchr CHR '':'' \<notin> set base" and "uchr CHR '':'' \<notin> set year" and "length year = 4"
  shows
   "(d \<noteq> [] \<longrightarrow>
      (\<exists>h k. gen_doi_hash (Some d) = Inr (Some h) \<and>
             gen_citekey (Some base) year (Some d) title = Inr k \<and>
             split_key k = Inr (base, year, h))) \<and>
    (dv = None \<or> dv = Some [] \<longrightarrow>
      (\<exists>h k. gen_title_hash (Some t) = Inr (Some h) \<and>
             gen_citekey (Some base) year dv (Some t) = Inr k \<and>
             split_key k = Inr (base, year, h)))"
proof (intro conjI impI)
  assume d: "d \<noteq> []"
  obtain a b where ab: "a \<in> set doi_suffix" "b \<in> set alphabet"
      "gen_doi_hash (Some d) = Inr (Some [a, b])"
    using gen_doi_hash_Some [of d] by blast
  have c: "uchr CHR '':'' \<notin> set (year @ [a, b])"
    using ab(1,2) assms(2) colon_notin_tables by auto
  have "split_key (base @ ustr '':'' @ (year @ [a, b])) = Inr (base, year, [a, b])"
    using split_key_one_colon [OF assms(1) c] assms(3) by simp
  with gen_citekey_doi [OF d ab(3), of "Some base" year title] ab(3)
  show "\<exists>h k. gen_doi_hash (Some d) = Inr (Some h) \<and>
             gen_citekey (Some base) year (Some d) title = Inr k \<and>
             split_key k = Inr (base, year, h)"
    by simp
next
  assume dv: "dv = None \<or> dv = Some []"
  obtain a b where ab: "a \<in> set title_suffix" "b \<in> set alphabet"
      "gen_title_hash (Some t) = Inr (Some [a, b])"
    using gen_title_hash_Some [of t] by blast
  have c: "uchr CHR '':'' \<notin> set (year @ [a, b])"
    using ab(1,2) assms(2) colon_notin_tables by auto
  have "split_key (base @ ustr '':'' @ (year @ [a, b])) = Inr (base, year, [a, b])"
    using split_key_one_colon [OF assms(1) c] assms(3) by simp
  with gen_citekey_title [OF dv ab(3), of "Some base" year] ab(3)
  show "\<exists>h k. gen_title_hash (Some t) = Inr (Some h) \<and>
             gen_citekey (Some base) year dv (Some t) = Inr k \<and>
             split_key k = Inr (base, year, h)"
    by simp
qed

theorem split_gen_citekey_witness:
  "split_key (ustr ''smith:2020br'') = Inr (ustr ''smith'', ustr ''2020'', ustr ''br'') \<and>
   split_key (ustr ''smith:2020uj'') = Inr (ustr ''smith'', ustr ''2020'', ustr ''uj'')"
proof -
  have a: "uchr CHR '':'' \<notin> set (ustr ''smith'')" "uchr CHR '':'' \<notin> set (ustr ''2020'')"
    "length (ustr ''2020'') = 4" "ustr ''10.1/xyz'' \<noteq> []"
    by (simp_all add: ustr_simps)
  note w = split_gen_citekey [OF a(1,2,3), of "ustr ''10.1/xyz''" "Some (ustr ''A title'')"
      None "ustr ''A title''"]
  from w a(4) obtain h k where h: "gen_doi_hash (Some (ustr ''10.1/xyz'')) = Inr (Some h)"
    "gen_citekey (Some (ustr ''smith'')) (ustr ''2020'') (Some (ustr ''10.1/xyz''))
       (Some (ustr ''A title'')) = Inr k"
    "split_key k = Inr (ustr ''smith'', ustr ''2020'', h)"
    by blast
  from w obtain h' k' where h': "gen_title_hash (Some (ustr ''A title'')) = Inr (Some h')"
    "gen_citekey (Some (ustr ''smith'')) (ustr ''2020'') None (Some (ustr ''A title'')) = Inr k'"
    "split_key k' = Inr (ustr ''smith'', ustr ''2020'', h')"
    by blast
  from h(1) have 1: "h = ustr ''br''" unfolding gen_doi_hash_example by simp
  from h(2) have 2: "k = ustr ''smith'' @ ustr '':'' @ ustr ''2020'' @ ustr ''br''"
    by (simp add: gen_citekey_def gen_hash_doi_example a(4))
  from h'(1) have 3: "h' = ustr ''uj''" unfolding gen_title_hash_example by simp
  from h'(2) have 4: "k' = ustr ''smith'' @ ustr '':'' @ ustr ''2020'' @ ustr ''uj''"
    by (simp add: gen_citekey_def gen_hash_title_example)
  from h(3) h'(3) show ?thesis unfolding 1 2 3 4 by (simp add: ustr_simps)
qed

section \<open>Listing the citations\<close>

lemma list_citations_rows_map_filter:
  "list_citations_rows rs = List.map_filter list_citations_row rs"
  by (induction rs) (auto simp: List.map_filter_simps split: option.splits)

text \<open>
  Claim C8. \<^verbatim>\<open>get_citations\<close> returns the pairs of \<^verbatim>\<open>list_citations\<close> in reverse,
  and \<^verbatim>\<open>list_citations\<close> yields, in the order of the store, the pair of each row that
  it processes without an exception.
\<close>

theorem get_citations_reversed:
  "get_citations db = rev (list_citations db) \<and>
   list_citations db = List.map_filter list_citations_row (Publication db)"
  by (simp add: get_citations_def list_citations_def list_citations_rows_map_filter)

lemma gen_citekey_Inr: "\<exists>k. gen_citekey base year dv title = Inr k"
proof (cases "truthy dv")
  case True
  then obtain d where "dv = Some d" by (cases dv) auto
  then show ?thesis using gen_doi_hash_Some [of d] True by (auto simp: gen_citekey_def)
next
  case False
  show ?thesis
  proof (cases title)
    case None
    with False show ?thesis by (simp add: gen_citekey_def)
  next
    case (Some t)
    with False show ?thesis using gen_title_hash_Some [of t] by (auto simp: gen_citekey_def)
  qed
qed

lemma list_citations_row_None: "list_citations_row r = None \<longleftrightarrow> publication_date r = None"
proof (cases "publication_date r")
  case None
  then show ?thesis by (simp add: list_citations_row_def)
next
  case (Some date)
  obtain k where "gen_citekey (citekey_base r) (py_slice 2 6 date) (doi r) (canonical_title r) = Inr k"
    using gen_citekey_Inr by blast
  with Some show ?thesis by (simp add: list_citations_row_def)
qed

lemma list_citations_row_Some:
  "publication_date r = Some date \<Longrightarrow>
   \<exists>k. gen_citekey (citekey_base r) (py_slice 2 6 date) (doi r) (canonical_title r) = Inr k \<and>
     list_citations_row r =
       Some (format_s (author_year_string r) @ ustr '' '' @ format_s (attributed_title r), k)"
  using gen_citekey_Inr [of "citekey_base r" "py_slice 2 6 date" "doi r" "canonical_title r"]
  by (auto simp: list_citations_row_def)

text \<open>
  Claim C5, as stated, fails for a date that is too short: a slice does not raise, so the
  row of a store whose only publication has the date \<^verbatim>\<open>99\<close> is listed, with an empty
  year in its citekey.
\<close>

theorem list_citations_short_date_counterexample:
  "length (the (publication_date short_date_row)) < 6 \<and>
   list_citations \<lparr>Publication = [short_date_row], PDF = []\<rparr> =
     [(ustr ''Smith 2020 A Title'', ustr ''smith:uj'')]"
  by (simp add: list_citations_def list_citations_row_def short_date_row_def py_slice_def
      gen_citekey_def gen_hash_title_example) (simp add: ustr_simps)

text \<open>
  Claim C5, amended. The rows that \<^verbatim>\<open>list_citations\<close> yields are exactly the rows with
  a publication date, in the order of the store: a row whose date is missing is skipped,
  and every other row appears with its label and with the citekey generated from the
  characters of its date at offsets 2 to 5 (fewer than four when the date is short). The
  function is total: no row makes the listing fail.
\<close>

theorem list_citations_skips_missing_date:
  "map fst (list_citations db) =
     map (\<lambda>r. format_s (author_year_string r) @ ustr '' '' @ format_s (attributed_title r))
       (filter (\<lambda>r. publication_date r \<noteq> None) (Publication db)) \<and>
   list_all2 (\<lambda>r y. gen_citekey (citekey_base r) (py_slice 2 6 (the (publication_date r))) (doi r)
                       (canonical_title r) = Inr (snd y))
     (filter (\<lambda>r. publication_date r \<noteq> None) (Publication db)) (list_citations db)"
proof -
  have "map fst (list_citations_rows rs) =
     map (\<lambda>r. format_s (author_year_string r) @ ustr '' '' @ format_s (attributed_title r))
       (filter (\<lambda>r. publication_date r \<noteq> None) rs) \<and>
   list_all2 (\<lambda>r y. gen_citekey (citekey_base r) (py_slice 2 6 (the (publication_date r))) (doi r)
                       (canonical_title r) = Inr (snd y))
     (filter (\<lambda>r. publication_date r \<noteq> None) rs) (list_citations_rows rs)" for rs
  proof (induction rs)
    case Nil
    show ?case by simp
  next
    case (Cons r rs)
    show ?case
    proof (cases "publication_date r")
      case None
      then have "list_citations_row r = None" by (simp add: list_citations_row_None)
      with None Cons show ?thesis by simp
    next
      case (Some date)
      from list_citations_row_Some [OF Some] Some Cons show ?thesis by auto
    qed
  qed
  then show ?thesis by (simp add: list_citations_def)
qed

section \<open>Resolving a citekey to a PDF\<close>














lemma find_pdf_malformed: "split_key citekey = Inl e \<Longrightarrow> find_pdf db citekey = Inl e"
  by (simp add: find_pdf_def)



section \<open>Scanning text for citation groups\<close>

declare scan_from.simps [simp del] one_or_more_citekeys.simps [simp del]

lemma py_slice_append:
  assumes "i \<le> j" "j \<le> k"
  shows "py_slice i k s = py_slice i j s @ py_slice j k s"
proof -
  have "k - i = (j - i) + (k - j)" using assms by arith
  then have "take (k - i) (drop i s) =
      take (j - i) (drop i s) @ take (k - j) (drop (j - i) (drop i s))"
    by (simp only: take_add)
  then show ?thesis using assms by (simp add: py_slice_def)
qed

lemma parse_Word_Some:
  assumes "parse_Word chars minLen maxLen s l = Some l'"
  shows "l < l' \<and> l' \<le> length s \<and> set (py_slice l l' s) \<subseteq> set chars \<and>
         length (py_slice l l' s) = l' - l \<and> minLen \<le> l' - l \<and>
         (\<forall>m. maxLen = Some m \<longrightarrow> l' - l \<le> m)"
proof -
  define rest where "rest = (case maxLen of None \<Rightarrow> drop l s | Some m \<Rightarrow> take m (drop l s))"
  define n where "n = length (takeWhile (\<lambda>c. c \<in> set chars) rest)"
  from assms have l': "l' = l + n" and n: "1 \<le> n" "minLen \<le> n"
    by (auto simp: parse_Word_def Let_def rest_def n_def split: if_splits)
  have nr: "n \<le> length rest" unfolding n_def by (rule length_takeWhile_le)
  have rl: "length rest \<le> length s - l" "\<forall>m. maxLen = Some m \<longrightarrow> length rest \<le> m"
    by (auto simp: rest_def split: option.splits)
  have "take n rest = take n (drop l s)"
    using nr by (auto simp: rest_def min_def split: option.splits if_splits)
  moreover have "takeWhile (\<lambda>c. c \<in> set chars) rest = take n rest"
    unfolding n_def by (rule takeWhile_eq_take)
  ultimately have sl: "py_slice l l' s = takeWhile (\<lambda>c. c \<in> set chars) rest"
    by (simp add: py_slice_def l')
  have "set (py_slice l l' s) \<subseteq> set chars"
    unfolding sl by (auto dest: set_takeWhileD)
  moreover have "length (py_slice l l' s) = l' - l"
    unfolding sl using l' by (simp add: n_def)
  ultimately show ?thesis using l' n nr rl by auto
qed

lemma parse_Literal_Some:
  assumes "parse_Literal ch s l = Some l'"
  shows "l' = l + 1 \<and> l < length s \<and> s ! l = ch \<and> py_slice l l' s = [ch]"
proof -
  from assms have a: "l' = l + 1" "l < length s" "s ! l = ch"
    by (auto simp: parse_Literal_def split: if_splits)
  then have "take 1 (drop l s) = [ch]"
    by (simp add: take_Suc_conv_app_nth [of 0] hd_drop_conv_nth take_Suc)
  with a show ?thesis by (simp add: py_slice_def)
qed

lemma preParse_ge: "loc \<le> preParse s loc"
  by (simp add: preParse_def)

lemma optional_comma_ge: "loc \<le> optional_comma s loc"
  using preParse_ge [of loc s]
  by (auto simp: optional_comma_def split: option.splits dest!: parse_Literal_Some)

lemma citekey_expr_Some:
  assumes "citekey_expr s loc = Some (l', locn, key)"
  shows "citekey_shape key \<and> py_slice locn (locn + length key) s = key \<and>
         loc \<le> locn \<and> l' = locn + length key \<and> 0 < length key \<and> l' \<le> length s"
proof -
  from assms obtain l1 l2 l3 where
    p: "locn = preParse s loc"
      "parse_Word alphas 1 None s locn = Some l1"
      "parse_Literal (uchr CHR '':'') s l1 = Some l2"
      "parse_Word nums 4 (Some 4) s l2 = Some l3"
      "parse_Word alphas 2 (Some 2) s l3 = Some l'"
    and key: "key = py_slice locn l' s"
    by (auto simp: citekey_expr_def Let_def split: option.splits)
  note w1 = parse_Word_Some [OF p(2)] and c = parse_Literal_Some [OF p(3)]
    and w2 = parse_Word_Some [OF p(4)] and w3 = parse_Word_Some [OF p(5)]
  have k: "key = py_slice locn l1 s @ ustr '':'' @ py_slice l2 l3 s @ py_slice l3 l' s"
  proof -
    have "py_slice locn l' s = py_slice locn l1 s @ py_slice l1 l' s"
      using w1 c w2 w3 by (intro py_slice_append) auto
    also have "py_slice l1 l' s = py_slice l1 l2 s @ py_slice l2 l' s"
      using c w2 w3 by (intro py_slice_append) auto
    also have "py_slice l2 l' s = py_slice l2 l3 s @ py_slice l3 l' s"
      using w2 w3 by (intro py_slice_append) auto
    finally have "py_slice locn l' s =
        py_slice locn l1 s @ py_slice l1 l2 s @ py_slice l2 l3 s @ py_slice l3 l' s" .
    moreover from c have "py_slice l1 l2 s = ustr '':''" by (auto simp: ustr_def)
    ultimately show ?thesis by (simp add: key)
  qed
  have "citekey_shape key"
    unfolding citekey_shape_def
    using w1 w2 w3
    by (intro exI [of _ "py_slice locn l1 s"] exI [of _ "py_slice l2 l3 s"] exI [of _ "py_slice l3 l' s"])
       (auto simp: k)
  moreover have len: "length key = l' - locn"
    using w3 by (auto simp: key py_slice_def)
  moreover have "locn < l'" using w1 c w2 w3 by auto
  ultimately show ?thesis
    using preParse_ge [of loc s] w3 p(1) key by auto
qed

lemma one_or_more_citekeys_Some:
  "one_or_more_citekeys s loc = Some (l', tokens) \<Longrightarrow>
   loc < l' \<and> l' \<le> length s \<and>
   (\<forall>(locn, key) \<in> set tokens.
      citekey_shape key \<and> py_slice locn (locn + length key) s = key \<and>
      loc \<le> locn \<and> locn + length key \<le> l')"
proof (induction s loc arbitrary: l' tokens rule: one_or_more_citekeys.induct)
  case (1 s loc)
  from "1.prems" obtain l1 locn key where
    c: "citekey_expr s loc = Some (l1, locn, key)"
    by (auto simp: one_or_more_citekeys.simps [of s loc] split: option.splits)
  note k = citekey_expr_Some [OF c]
  let ?l2 = "optional_comma s l1"
  from k have "loc \<le> locn \<and> l1 = locn + length key \<and> 0 < length key" by blast
  then have l1: "loc < l1" by arith
  have l2: "l1 \<le> ?l2" by (rule optional_comma_ge)
  have l2': "?l2 \<le> length s"
    using k parse_Literal_Some [of "uchr CHR '',''" s "preParse s l1"]
    by (auto simp: optional_comma_def split: option.splits)
  show ?case
  proof (cases "one_or_more_citekeys s ?l2")
    case None
    with "1.prems" c have "l' = ?l2" "tokens = [(locn, key)]"
      by (auto simp: one_or_more_citekeys.simps [of s loc])
    with k l1 l2 l2' show ?thesis by auto
  next
    case (Some a)
    obtain l3 toks where a: "a = (l3, toks)" by (cases a)
    from "1.prems" c Some a have e: "l' = l3" "tokens = (locn, key) # toks"
      by (auto simp: one_or_more_citekeys.simps [of s loc])
    from "1.IH" [OF c refl, of l3 toks] Some a
    have ih: "?l2 < l3" "l3 \<le> length s"
      "\<forall>(locn, key) \<in> set toks.
        citekey_shape key \<and> py_slice locn (locn + length key) s = key \<and>
        ?l2 \<le> locn \<and> locn + length key \<le> l3"
      by auto
    from ih(3) k l2 have "\<forall>(locn, key) \<in> set toks.
        citekey_shape key \<and> py_slice locn (locn + length key) s = key \<and>
        loc \<le> locn \<and> locn + length key \<le> l3"
      by fastforce
    with k l1 l2 ih(1,2) e show ?thesis by auto
  qed
qed

lemma citations_expr_Some:
  assumes "citations_expr s loc = Some (l', tokens)"
  shows "s ! loc = uchr CHR ''{'' \<and> s ! (l' - 1) = uchr CHR ''}'' \<and> l' \<le> length s \<and>
    (\<forall>(locn, key) \<in> set tokens.
      citekey_shape key \<and> py_slice locn (locn + length key) s = key \<and>
      loc < locn \<and> locn + length key < l')"
proof -
  from assms obtain l1 l2 where
    p: "parse_Literal (uchr CHR ''{'') s loc = Some l1"
       "one_or_more_citekeys s l1 = Some (l2, tokens)"
       "parse_Literal (uchr CHR ''}'') s (preParse s l2) = Some l'"
    by (auto simp: citations_expr_def split: option.splits)
  note a = parse_Literal_Some [OF p(1)] and b = one_or_more_citekeys_Some [OF p(2)]
    and c = parse_Literal_Some [OF p(3)]
  have "l2 < l'" using c preParse_ge [of l2 s] by simp
  with a b c show ?thesis by fastforce
qed

lemma scan_from_tokens:
  "(tokens, start, stop) \<in> set (scan_from s loc) \<Longrightarrow>
   citations_expr s start = Some (stop, tokens) \<and> loc \<le> start"
proof (induction s loc rule: scan_from.induct)
  case (1 s loc)
  show ?case
  proof (cases "loc \<le> length s")
    case False
    with "1.prems" show ?thesis by (simp add: scan_from.simps [of s loc])
  next
    case True
    note le = preParse_ge [of loc s]
    show ?thesis
    proof (cases "citations_expr s (preParse s loc)")
      case None
      with True "1.prems" have "(tokens, start, stop) \<in> set (scan_from s (preParse s loc + 1))"
        by (simp add: scan_from.simps [of s loc])
      from "1.IH"(1) [OF True None this] le show ?thesis by simp
    next
      case (Some a)
      obtain nextLoc toks where a: "a = (nextLoc, toks)" by (cases a)
      show ?thesis
      proof (cases "nextLoc > loc")
        case gt: True
        with True Some a "1.prems"
        consider "(tokens, start, stop) = (toks, preParse s loc, nextLoc)"
          | "(tokens, start, stop) \<in> set (scan_from s nextLoc)"
          by (auto simp: scan_from.simps [of s loc])
        then show ?thesis
        proof cases
          case 1
          with Some a le show ?thesis by simp
        next
          case 2
          from "1.IH"(2) [OF True Some a [symmetric] gt 2] gt show ?thesis by simp
        qed
      next
        case ngt: False
        with True Some a "1.prems"
        have "(tokens, start, stop) \<in> set (scan_from s (preParse s loc + 1))"
          by (simp add: scan_from.simps [of s loc])
        from "1.IH"(3) [OF True Some a [symmetric] ngt this] le show ?thesis by simp
      qed
    qed
  qed
qed

lemma scan_from_no_brace:
  "uchr CHR ''{'' \<notin> set s \<Longrightarrow> scan_from s loc = []"
proof (induction s loc rule: scan_from.induct)
  case (1 s loc)
  have n: "citations_expr s l = None" for l
  proof -
    have "l < length s \<Longrightarrow> s ! l \<noteq> uchr CHR ''{''"
      using "1.prems" nth_mem [of l s] by metis
    then have "parse_Literal (uchr CHR ''{'') s l = None"
      by (auto simp: parse_Literal_def)
    then show ?thesis by (simp add: citations_expr_def)
  qed
  show ?case
  proof (cases "loc \<le> length s")
    case True
    from "1.IH"(1) [OF True n "1.prems"] True show ?thesis
      by (simp add: scan_from.simps [of s loc] n)
  next
    case False
    then show ?thesis by (simp add: scan_from.simps [of s loc])
  qed
qed

lemma set_expandtabs_from: "set (expandtabs_from col s) \<subseteq> insert (uchr CHR '' '') (set s)"
  by (induction s arbitrary: col) auto

lemma expandtabs_example:
  "expandtabs (ustr ''see {smith:2020ab, jones:2019cd} for details'') =
     ustr ''see {smith:2020ab, jones:2019cd} for details''"
  by (simp add: expandtabs_def ustr_simps)

lemma scan_example:
  "scanString (ustr ''see {smith:2020ab, jones:2019cd} for details'') =
     [([(5, ustr ''smith:2020ab''), (19, ustr ''jones:2019cd'')], 4, 32)]"
  unfolding scanString_def expandtabs_example
  by (simp add: scan_from.simps one_or_more_citekeys.simps citations_expr_def
      citekey_expr_def parse_Word_def parse_Literal_def preParse_def optional_comma_def py_slice_def
      alphas_def nums_def DEFAULT_WHITE_CHARS_def ustr_simps Let_def)

text \<open>
  Claim C9. Scanning \<^verbatim>\<open>see {smith:2020ab, jones:2019cd} for details\<close> yields one match,
  from the opening brace at offset 4 to the offset 32 after the closing brace, with the
  keys \<^verbatim>\<open>smith:2020ab\<close> at offset 5 and \<^verbatim>\<open>jones:2019cd\<close> at offset 19. In every
  match of every text, each key is one or more letters, a colon, exactly four digits and
  exactly two letters, it stands in the scanned text at the offset reported with it,
  between the braces of the match, and the match starts at an opening brace and ends after
  a closing brace. A text without an opening brace has no match.
\<close>

theorem citations_expr_scanString:
  "scanString (ustr ''see {smith:2020ab, jones:2019cd} for details'') =
     [([(5, ustr ''smith:2020ab''), (19, ustr ''jones:2019cd'')], 4, 32)] \<and>
   (\<forall>tokens start stop loc key.
      (tokens, start, stop) \<in> set (scanString text) \<and> (loc, key) \<in> set tokens \<longrightarrow>
      citekey_shape key \<and> py_slice loc (loc + length key) (expandtabs text) = key \<and>
      expandtabs text ! start = uchr CHR ''{'' \<and>
      expandtabs text ! (stop - 1) = uchr CHR ''}'' \<and>
      start < loc \<and> loc + length key < stop \<and> stop \<le> length (expandtabs text)) \<and>
   (uchr CHR ''{'' \<notin> set text \<longrightarrow> scanString text = [])"
proof -
  have 1: "scanString (ustr ''see {smith:2020ab, jones:2019cd} for details'') =
     [([(5, ustr ''smith:2020ab''), (19, ustr ''jones:2019cd'')], 4, 32)]"
    by (rule scan_example)
  have 2: "citekey_shape key \<and> py_slice loc (loc + length key) (expandtabs text) = key \<and>
      expandtabs text ! start = uchr CHR ''{'' \<and>
      expandtabs text ! (stop - 1) = uchr CHR ''}'' \<and>
      start < loc \<and> loc + length key < stop \<and> stop \<le> length (expandtabs text)"
    if a: "(tokens, start, stop) \<in> set (scanString text) \<and> (loc, key) \<in> set tokens"
    for tokens start stop loc key
  proof -
    from a have "citations_expr (expandtabs text) start = Some (stop, tokens)"
      using scan_from_tokens [of tokens start stop "expandtabs text" 0]
      by (simp add: scanString_def)
    from citations_expr_Some [OF this] a show ?thesis by fastforce
  qed
  have 3: "scanString text = []" if b: "uchr CHR ''{'' \<notin> set text"
  proof -
    from b have "uchr CHR ''{'' \<notin> set (expandtabs text)"
      using set_expandtabs_from [of 0 "text"] by (auto simp: expandtabs_def)
    then show ?thesis by (simp add: scanString_def scan_from_no_brace)
  qed
  from 1 2 3 show ?thesis by blast
qed

theorem citations_expr_scanString_witness:
  "scanString (ustr ''no braces here'') = [] \<and>
   citekey_shape (ustr ''smith:2020ab'') \<and> citekey_shape (ustr ''jones:2019cd'') \<and>
   py_slice 19 (19 + 12) (ustr ''see {smith:2020ab, jones:2019cd} for details'') = ustr ''jones:2019cd''"
proof -
  let ?t = "ustr ''see {smith:2020ab, jones:2019cd} for details''"
  let ?toks = "[(5, ustr ''smith:2020ab''), (19, ustr ''jones:2019cd'')]"
  note t = citations_expr_scanString [of ?t]
  have m: "(?toks, 4, 32) \<in> set (scanString ?t)"
    using t by simp
  have l: "length (ustr ''jones:2019cd'') = 12" by (simp add: ustr_simps)
  from t m have "citekey_shape (ustr ''smith:2020ab'')"
    by (metis list.set_intros(1))
  moreover from t m have "citekey_shape (ustr ''jones:2019cd'') \<and>
      py_slice 19 (19 + length (ustr ''jones:2019cd'')) (expandtabs ?t) = ustr ''jones:2019cd''"
    by (metis list.set_intros(1) list.set_intros(2))
  moreover have "uchr CHR ''{'' \<notin> set (ustr ''no braces here'')"
    by (simp add: ustr_simps)
  with citations_expr_scanString [of "ustr ''no braces here''"]
  have "scanString (ustr ''no braces here'') = []" by blast
  ultimately show ?thesis by (simp add: l expandtabs_example)
qed

end
